theory Spec2Isabelle
  imports Main "HOL-Library.Char_ord" "HOL-Library.List_Lexorder"
begin

section \<open>Data model (types.go, and the parts of cobra and pflag the code reads)\<close>

text \<open>
  Go's \<open>any\<close>: the values that reach an \<open>ArgDescriptor\<close>'s default or an
  \<open>IODescriptor\<close>'s schema. \<open>Nil_any\<close> is the nil interface. Floating point values
  are left out; the code under study never builds one.
\<close>

datatype any =
    Nil_any
  | Bool_any bool
  | String_any string
  | Int_any int
  | Slice_any "any list"
  | Map_any "(string \<times> any) list"

text \<open>
  \<open>pflag.Flag\<close>, with the fields the code reads. \<open>flag_ValueType\<close> is what
  \<open>f.Value.Type()\<close> returns. \<open>flag_Annotations\<close> is a Go map that may be nil:
  \<open>None\<close> is the nil map.
\<close>

record Flag =
  flag_Name :: string
  flag_Usage :: string
  flag_ValueType :: string
  flag_DefValue :: string
  flag_Hidden :: bool
  flag_Annotations :: "(string \<rightharpoonup> string list) option"

text \<open>
  \<open>pflag.FlagSet\<close>: the flags in the order they were added (pflag's \<open>orderedFormal\<close>)
  and its public field \<open>SortFlags\<close>, which \<open>pflag.NewFlagSet\<close> sets to true; cobra's
  \<open>cmd.Flags()\<close> creates the set with \<open>NewFlagSet\<close>.
\<close>

record FlagSet =
  fs_formal :: "Flag list"
  fs_SortFlags :: bool

text \<open>
  \<open>cobra.Command\<close>. \<open>cmd_Runnable\<close> says whether \<open>Run\<close> or \<open>RunE\<close> is set.
  \<open>cmd_Flags\<close> is the flag set \<open>cmd.Flags()\<close> returns and \<open>cmd_Commands\<close> the slice
  \<open>cmd.Commands()\<close> returns.
\<close>

datatype Command =
  Command (cmd_Use: string) (cmd_Short: string) (cmd_Long: string) (cmd_Version: string)
    (cmd_Hidden: bool) (cmd_Runnable: bool) (cmd_Flags: FlagSet) (cmd_Commands: "Command list")

record ArgDescriptor =
  arg_Name :: string
  arg_Type :: string
  arg_Description :: string
  arg_Required :: bool
  arg_Default :: any
  arg_Values :: "string list"

record IODescriptor =
  io_ContentType :: string
  io_Description :: string
  io_Schema :: "(string \<times> any) list"

record Example =
  ex_Description :: string
  ex_Command :: string
  ex_Output :: string

record AuthProvider =
  ap_ID :: string
  ap_Type :: string
  ap_DisplayName :: string
  ap_AuthorizationURL :: string
  ap_TokenURL :: string
  ap_Scopes :: "string list"
  ap_ClientID :: string
  ap_RegistrationURL :: string
  ap_Instructions :: string

record AuthConfig =
  ac_Required :: bool
  ac_EnvVar :: string
  ac_Providers :: "AuthProvider list"

record CommandAuth =
  ca_Required :: bool
  ca_Scopes :: "string list"

record CommandDescriptor =
  cd_Name :: string
  cd_Description :: string
  cd_Args :: "ArgDescriptor list"
  cd_Stdin :: "IODescriptor option"
  cd_Stdout :: "IODescriptor option"
  cd_Examples :: "Example list"
  cd_Auth :: "CommandAuth option"

record ToolSchema =
  ts_SpecVersion :: string
  ts_Name :: string
  ts_Version :: string
  ts_Description :: string
  ts_Commands :: "CommandDescriptor list"
  ts_Auth :: "AuthConfig option"

record CommandAnnotation =
  ann_Args :: "ArgDescriptor list"
  ann_ArgTypes :: "string \<rightharpoonup> string"
  ann_Stdin :: "IODescriptor option"
  ann_Stdout :: "IODescriptor option"
  ann_Examples :: "Example list"
  ann_Auth :: "CommandAuth option"

text \<open>
  \<open>DescribeOptions\<close>. A key of \<open>Commands\<close> bound to a nil pointer reads like a missing
  key (\<open>opts.Commands[name]\<close> is nil either way), so the map holds annotations, not
  pointers.
\<close>

record DescribeOptions =
  opts_Commands :: "string \<rightharpoonup> CommandAnnotation"
  opts_Auth :: "AuthConfig option"

section \<open>Library functions the code calls\<close>

text \<open>
  Go strings are byte strings, as \<open>string\<close> is here. \<open>isSpace\<close> is the white space of
  \<open>strings.Fields\<close> and \<open>strings.TrimSpace\<close> among the ASCII bytes: tab, line feed,
  vertical tab, form feed, carriage return and space. (The Go functions also treat the
  UTF-8 encodings of the Unicode spaces beyond ASCII as white space; those multi-byte
  sequences are ordinary bytes here. No statement below depends on how a usage string
  is split: the general ones hold for any list of fields, the examples are ASCII.)
\<close>

definition isSpace :: "char \<Rightarrow> bool" where
  "isSpace c = (c = CHR 0x09 \<or> c = CHR 0x0A \<or> c = CHR 0x0B \<or> c = CHR 0x0C
     \<or> c = CHR 0x0D \<or> c = CHR '' '')"

text \<open>\<open>strings.Fields\<close>: a scan that keeps the field being read in \<open>cur\<close>.\<close>

fun fieldsFrom :: "string \<Rightarrow> string \<Rightarrow> string list" where
  "fieldsFrom cur [] = (if cur = [] then [] else [cur])"
| "fieldsFrom cur (c # cs) =
     (if isSpace c then (if cur = [] then fieldsFrom [] cs else cur # fieldsFrom [] cs)
      else fieldsFrom (cur @ [c]) cs)"

definition Fields :: "string \<Rightarrow> string list" where
  "Fields s = fieldsFrom [] s"

definition TrimSpace :: "string \<Rightarrow> string" where
  "TrimSpace s = rev (dropWhile isSpace (rev (dropWhile isSpace s)))"

text \<open>\<open>strings.Trim(s, cutset)\<close>: drops the leading and trailing bytes that are in the cutset.\<close>

definition Trim :: "string \<Rightarrow> string \<Rightarrow> string" where
  "Trim s cutset =
     rev (dropWhile (\<lambda>c. c \<in> set cutset) (rev (dropWhile (\<lambda>c. c \<in> set cutset) s)))"

definition HasPrefix :: "string \<Rightarrow> string \<Rightarrow> bool" where
  "HasPrefix s p = (take (length p) s = p)"

definition HasSuffix :: "string \<Rightarrow> string \<Rightarrow> bool" where
  "HasSuffix s p = (length p \<le> length s \<and> drop (length s - length p) s = p)"

text \<open>cobra's \<open>cmd.Name()\<close>: the \<open>Use\<close> line up to its first space.\<close>

definition cmd_Name :: "Command \<Rightarrow> string" where
  "cmd_Name c = takeWhile (\<lambda>ch. ch \<noteq> CHR '' '') (cmd_Use c)"

text \<open>
  pflag's \<open>FlagSet.VisitAll\<close> visits the flags "in lexicographical order or in
  primordial order if f.SortFlags is false": sorted by name (Go's byte-wise string
  order) when \<open>SortFlags\<close> is set, in the order of declaration otherwise.
\<close>

definition VisitAll :: "FlagSet \<Rightarrow> Flag list" where
  "VisitAll fs = (if fs_SortFlags fs then sort_key flag_Name (fs_formal fs) else fs_formal fs)"

text \<open>pflag's \<open>FlagSet.Lookup\<close>: the flag of that name, or nil.\<close>

definition Lookup :: "FlagSet \<Rightarrow> string \<Rightarrow> Flag option" where
  "Lookup fs name = find (\<lambda>f. flag_Name f = name) (fs_formal fs)"

text \<open>Reading a Go map that may be nil: a nil map has no key.\<close>

definition annotation :: "Flag \<Rightarrow> string \<Rightarrow> string list option" where
  "annotation f k = (case flag_Annotations f of None \<Rightarrow> None | Some m \<Rightarrow> m k)"

section \<open>introspect.go\<close>

definition pflagTypeToMTP :: "Flag \<Rightarrow> string" where
  "pflagTypeToMTP f =
     (let t = flag_ValueType f in
      if t = ''bool'' then ''boolean''
      else if t \<in> set [''int'', ''int8'', ''int16'', ''int32'', ''int64'',
                        ''uint'', ''uint8'', ''uint16'', ''uint32'', ''uint64''] then ''integer''
      else if t \<in> set [''float32'', ''float64''] then ''number''
      else if t \<in> set [''stringSlice'', ''intSlice'', ''stringArray'', ''uintSlice''] then ''array''
      else ''string'')"

definition flagDefault :: "Flag \<Rightarrow> any" where
  "flagDefault f =
     (let t = flag_ValueType f in
      if t = ''bool'' then
        (if flag_DefValue f = ''true'' then Bool_any True else Nil_any)
      else if t \<in> set [''int'', ''int8'', ''int16'', ''int32'', ''int64'',
                        ''uint'', ''uint8'', ''uint16'', ''uint32'', ''uint64''] then
        (if flag_DefValue f = '''' \<or> flag_DefValue f = ''0'' then Nil_any
         else String_any (flag_DefValue f))
      else if t \<in> set [''float32'', ''float64''] then
        (if flag_DefValue f = '''' \<or> flag_DefValue f = ''0'' then Nil_any
         else String_any (flag_DefValue f))
      else
        (if flag_DefValue f = '''' \<or> flag_DefValue f = ''[]'' then Nil_any
         else String_any (flag_DefValue f)))"

definition skippedFlags :: "string \<Rightarrow> bool" where
  "skippedFlags name = (name \<in> set [''help'', ''mtp-describe'', ''version''])"

text \<open>
  The body of the closure \<open>extractFlags\<close> hands to \<open>VisitAll\<close>, for a flag that passed
  its guard: the type (inferred, then the annotation's override), the descriptor, the
  required marker, the default, and last the enum values.
\<close>

definition flagArg :: "Flag \<Rightarrow> CommandAnnotation option \<Rightarrow> ArgDescriptor" where
  "flagArg f ann =
     (let typ = (case ann of
                   None \<Rightarrow> pflagTypeToMTP f
                 | Some a \<Rightarrow> (case ann_ArgTypes a (flag_Name f) of
                               Some override \<Rightarrow> override
                             | None \<Rightarrow> pflagTypeToMTP f));
          arg = \<lparr>arg_Name = ''--'' @ flag_Name f, arg_Type = typ,
                 arg_Description = flag_Usage f, arg_Required = False,
                 arg_Default = Nil_any, arg_Values = []\<rparr>;
          arg = (case annotation f ''cobra_annotation_bash_completion_one_required_flag'' of
                   Some a \<Rightarrow> if length a > 0 then arg\<lparr>arg_Required := True\<rparr> else arg
                 | None \<Rightarrow> arg);
          arg = (let def = flagDefault f in
                 if def \<noteq> Nil_any then arg\<lparr>arg_Default := def\<rparr> else arg);
          arg = (case annotation f ''values'' of
                   Some vals \<Rightarrow>
                     if length vals > 0 then arg\<lparr>arg_Type := ''enum'', arg_Values := vals\<rparr>
                     else arg
                 | None \<Rightarrow> arg)
      in arg)"

definition extractFlags :: "Command \<Rightarrow> CommandAnnotation option \<Rightarrow> ArgDescriptor list" where
  "extractFlags cmd ann =
     foldl (\<lambda>args f.
              if skippedFlags (flag_Name f) \<or> flag_Hidden f then args
              else args @ [flagArg f ann])
       [] (VisitAll (cmd_Flags cmd))"

text \<open>One round of the loop of \<open>parseUseArgs\<close> over \<open>parts[1:]\<close>.\<close>

definition parseUseStep :: "ArgDescriptor list \<Rightarrow> string \<Rightarrow> ArgDescriptor list" where
  "parseUseStep args part =
     (if HasPrefix part ''<'' \<and> HasSuffix part ''>'' then
        args @ [\<lparr>arg_Name = Trim part ''<>'', arg_Type = ''string'', arg_Description = [],
                  arg_Required = True, arg_Default = Nil_any, arg_Values = []\<rparr>]
      else if HasPrefix part ''['' \<and> HasSuffix part '']'' then
        args @ [\<lparr>arg_Name = Trim part ''[]'', arg_Type = ''string'', arg_Description = [],
                  arg_Required = False, arg_Default = Nil_any, arg_Values = []\<rparr>]
      else args)"

definition parseUseArgs :: "string \<Rightarrow> ArgDescriptor list" where
  "parseUseArgs use =
     (let parts = Fields use in
      if length parts \<le> 1 then [] else foldl parseUseStep [] (tl parts))"

definition extractCommand ::
  "Command \<Rightarrow> string \<Rightarrow> CommandAnnotation option \<Rightarrow> CommandDescriptor" where
  "extractCommand cmd name ann =
     (let desc = TrimSpace (cmd_Short cmd);
          desc = (if desc = [] then TrimSpace (cmd_Long cmd) else desc);
          cd = \<lparr>cd_Name = name, cd_Description = desc, cd_Args = [], cd_Stdin = None,
                cd_Stdout = None, cd_Examples = [], cd_Auth = None\<rparr>;
          cd = (case ann of
                  Some a \<Rightarrow>
                    if length (ann_Args a) > 0 then cd\<lparr>cd_Args := cd_Args cd @ ann_Args a\<rparr>
                    else cd\<lparr>cd_Args := cd_Args cd @ parseUseArgs (cmd_Use cmd)\<rparr>
                | None \<Rightarrow> cd\<lparr>cd_Args := cd_Args cd @ parseUseArgs (cmd_Use cmd)\<rparr>);
          cd = cd\<lparr>cd_Args := cd_Args cd @ extractFlags cmd ann\<rparr>;
          cd = (case ann of
                  Some a \<Rightarrow> cd\<lparr>cd_Stdin := ann_Stdin a, cd_Stdout := ann_Stdout a,
                                 cd_Examples := ann_Examples a, cd_Auth := ann_Auth a\<rparr>
                | None \<Rightarrow> cd)
      in cd)"

definition skippedCommands :: "string \<Rightarrow> bool" where
  "skippedCommands name = (name \<in> set [''help'', ''completion''])"

definition visibleSubcommands :: "Command \<Rightarrow> Command list" where
  "visibleSubcommands cmd =
     foldl (\<lambda>visible sub.
              if cmd_Hidden sub \<or> skippedCommands (cmd_Name sub) then visible
              else visible @ [sub])
       [] (cmd_Commands cmd)"

text \<open>The name a visible child is walked under.\<close>

definition subName :: "string \<Rightarrow> Command \<Rightarrow> string" where
  "subName prefix sub =
     (if prefix \<noteq> [] then prefix @ '' '' @ cmd_Name sub else cmd_Name sub)"

function walkCommands ::
  "Command \<Rightarrow> string \<Rightarrow> DescribeOptions option \<Rightarrow> CommandDescriptor list" where
  "walkCommands cmd prefix opts =
     (if length (visibleSubcommands cmd) = 0 then
        (let name = (if prefix = [] then ''_root'' else prefix);
             ann = (case opts of None \<Rightarrow> None | Some os \<Rightarrow> opts_Commands os name)
         in [] @ [extractCommand cmd name ann])
      else
        foldl (\<lambda>commands sub. commands @ walkCommands sub (subName prefix sub) opts)
          [] (visibleSubcommands cmd))"
  by pat_completeness auto
termination
proof -
  have sub: "set (foldl (\<lambda>visible sub.
                      if cmd_Hidden sub \<or> skippedCommands (cmd_Name sub) then visible
                      else visible @ [sub]) acc xs) \<subseteq> set acc \<union> set xs" for acc xs
  proof (induction xs arbitrary: acc)
    case Nil
    show ?case by simp
  next
    case (Cons x xs)
    show ?case using Cons [of "acc @ [x]"] Cons [of acc] by auto
  qed
  have smaller: "size sub < size cmd" if "sub \<in> set (visibleSubcommands cmd)" for sub cmd
  proof -
    from that sub [of "[]" "cmd_Commands cmd"] have "sub \<in> set (cmd_Commands cmd)"
      unfolding visibleSubcommands_def by auto
    then show ?thesis
      by (cases cmd) (auto simp: less_Suc_eq_le dest: size_list_estimation'[where f = size])
  qed
  show ?thesis
    by (relation "measure (\<lambda>(cmd, prefix, opts). size cmd)") (auto simp: smaller)
qed

section \<open>mtp.go\<close>

definition MTPSpecVersion :: string where
  "MTPSpecVersion = ''2026-02-07''"

definition Describe :: "Command \<Rightarrow> DescribeOptions option \<Rightarrow> ToolSchema" where
  "Describe root opts =
     (let desc = TrimSpace (cmd_Short root);
          desc = (if desc = [] then TrimSpace (cmd_Long root) else desc);
          schema = \<lparr>ts_SpecVersion = MTPSpecVersion, ts_Name = cmd_Name root,
                    ts_Version = cmd_Version root, ts_Description = desc,
                    ts_Commands = walkCommands root [] opts, ts_Auth = None\<rparr>
      in case opts of
           None \<Rightarrow> schema
         | Some os \<Rightarrow> (case opts_Auth os of
                         None \<Rightarrow> schema
                       | Some a \<Rightarrow> schema\<lparr>ts_Auth := Some a\<rparr>))"

text \<open>
  \<open>EnumValues\<close> writes through the pointer \<open>Lookup\<close> returned: the flag of that name
  inside the command's flag set changes. \<open>storeFlag\<close> is that write, and \<open>EnumValues\<close>
  returns the command as it is afterwards. The function has no result and no error
  path in the source.
\<close>

fun storeFlag :: "Flag list \<Rightarrow> string \<Rightarrow> Flag \<Rightarrow> Flag list" where
  "storeFlag [] name f' = []"
| "storeFlag (f # fs) name f' =
     (if flag_Name f = name then f' # fs else f # storeFlag fs name f')"

definition EnumValues :: "Command \<Rightarrow> string \<Rightarrow> string list \<Rightarrow> Command" where
  "EnumValues cmd flagName vals =
     (case Lookup (cmd_Flags cmd) flagName of
        None \<Rightarrow> cmd
      | Some f \<Rightarrow>
          (let m = (case flag_Annotations f of None \<Rightarrow> Map.empty | Some m \<Rightarrow> m);
               f' = f\<lparr>flag_Annotations := Some (m(''values'' \<mapsto> vals))\<rparr>
           in case cmd of
                Command use short long version hidden runnable flags commands \<Rightarrow>
                  Command use short long version hidden runnable
                    (flags\<lparr>fs_formal := storeFlag (fs_formal flags) flagName f'\<rparr>) commands))"

section \<open>Notions of the specification\<close>

text \<open>
  A visible child, in the specification's words: not marked hidden, and not one of the
  two reserved names.
\<close>

definition visibleChild :: "Command \<Rightarrow> bool" where
  "visibleChild sub =
     (\<not> cmd_Hidden sub \<and> cmd_Name sub \<noteq> ''help'' \<and> cmd_Name sub \<noteq> ''completion'')"

text \<open>A visible flag: not marked hidden, and not one of the three reserved names.\<close>

definition visibleFlag :: "Flag \<Rightarrow> bool" where
  "visibleFlag f =
     (\<not> flag_Hidden f \<and> flag_Name f \<noteq> ''help'' \<and> flag_Name f \<noteq> ''mtp-describe''
      \<and> flag_Name f \<noteq> ''version'')"

text \<open>
  \<open>reaches c p n q\<close>: starting at node \<open>c\<close> with accumulated path \<open>p\<close>, node \<open>n\<close> is
  reached with accumulated path \<open>q\<close> by stepping through visible children only, each
  step joining the path and the child's name.
\<close>

inductive reaches :: "Command \<Rightarrow> string \<Rightarrow> Command \<Rightarrow> string \<Rightarrow> bool" where
  here: "reaches c p c p"
| down: "sub \<in> set (cmd_Commands c) \<Longrightarrow> visibleChild sub \<Longrightarrow>
         reaches sub (subName p sub) n q \<Longrightarrow> reaches c p n q"

text \<open>The name of a descriptor emitted at accumulated path \<open>q\<close>.\<close>

definition leafName :: "string \<Rightarrow> string" where
  "leafName q = (if q = [] then ''_root'' else q)"

text \<open>The annotation the caller supplied for a command path, if any.\<close>

definition annotationFor :: "DescribeOptions option \<Rightarrow> string \<Rightarrow> CommandAnnotation option" where
  "annotationFor opts name = (case opts of None \<Rightarrow> None | Some os \<Rightarrow> opts_Commands os name)"

text \<open>
  The positional part of a command's arguments: the annotation's list when it has one,
  the list read from the usage string otherwise.
\<close>

definition positionalArgs :: "Command \<Rightarrow> CommandAnnotation option \<Rightarrow> ArgDescriptor list" where
  "positionalArgs cmd ann =
     (case ann of
        None \<Rightarrow> parseUseArgs (cmd_Use cmd)
      | Some a \<Rightarrow> if ann_Args a = [] then parseUseArgs (cmd_Use cmd) else ann_Args a)"

text \<open>
  The tree with everything invisible removed: below the node, every child that is not
  visible goes with its whole subtree, and in every node that stays, every flag that is
  not visible goes. The node at the top is kept whatever its mark or name.
\<close>

fun prune :: "Command \<Rightarrow> Command" where
  "prune (Command use short long version hidden runnable flags commands) =
     Command use short long version hidden runnable
       (flags\<lparr>fs_formal := filter visibleFlag (fs_formal flags)\<rparr>)
       (map prune (filter visibleChild commands))"

section \<open>Example inputs\<close>

text \<open>A flag as \<open>cmd.Flags().String\<close>, \<open>Bool\<close>, \<open>Int\<close>, ... declare it.\<close>

definition newFlag :: "string \<Rightarrow> string \<Rightarrow> string \<Rightarrow> string \<Rightarrow> Flag" where
  "newFlag name typ defValue usage =
     \<lparr>flag_Name = name, flag_Usage = usage, flag_ValueType = typ, flag_DefValue = defValue,
      flag_Hidden = False, flag_Annotations = None\<rparr>"

text \<open>A command with the flag set cobra creates for it (\<open>SortFlags\<close> set).\<close>

definition newCommand :: "string \<Rightarrow> string \<Rightarrow> bool \<Rightarrow> Flag list \<Rightarrow> Command list \<Rightarrow> Command" where
  "newCommand use short runnable flags commands =
     Command use short [] [] False runnable \<lparr>fs_formal = flags, fs_SortFlags = True\<rparr> commands"

text \<open>
  The tool of examples/filetool/main.go, as its \<open>--mtp-describe\<close> hook sees it: cobra has
  added the \<open>help\<close> flags and the \<open>help\<close> and \<open>completion\<close> commands by then, and
  \<open>cmd.Commands()\<close> returns the children sorted by name.
\<close>

definition convertBase :: Command where
  "convertBase =
     newCommand ''convert <input_file>'' ''Convert a file from one format to another'' True
       [newFlag ''format'' ''string'' ''json'' ''Output format'',
        newFlag ''pretty'' ''bool'' ''false'' ''Pretty-print output'',
        newFlag ''help'' ''bool'' ''false'' ''help for convert'',
        newFlag ''mtp-describe'' ''bool'' ''false''
          ''Output machine-readable JSON schema for this tool''] []"

definition convertCmd :: Command where
  "convertCmd = EnumValues convertBase ''format'' [''json'', ''csv'', ''yaml'']"

definition validateCmd :: Command where
  "validateCmd =
     newCommand ''validate <input_file>'' ''Check if a file is well-formed and valid'' True
       [newFlag ''strict'' ''bool'' ''false'' ''Enable strict validation mode'',
        newFlag ''help'' ''bool'' ''false'' ''help for validate''] []"

definition processCmd :: Command where
  "processCmd =
     newCommand ''process'' ''Process structured JSON input from stdin'' True
       [newFlag ''verbose'' ''bool'' ''false'' ''Enable verbose output''] []"

definition helpCmd :: Command where
  "helpCmd = newCommand ''help [command]'' ''Help about any command'' True [] []"

definition completionCmd :: Command where
  "completionCmd =
     newCommand ''completion'' ''Generate the autocompletion script for the specified shell''
       False []
       [newCommand ''bash'' ''Generate the autocompletion script for bash'' True [] [],
        newCommand ''zsh'' ''Generate the autocompletion script for zsh'' True [] []]"

definition filetool :: Command where
  "filetool =
     Command ''filetool'' ''Convert and validate files between formats'' [] ''1.2.0'' False True
       \<lparr>fs_formal = [newFlag ''mtp-describe'' ''bool'' ''false''
                        ''Output machine-readable JSON schema for this tool''],
        fs_SortFlags = True\<rparr>
       [completionCmd, convertCmd, helpCmd, processCmd, validateCmd]"

definition filetoolOpts :: DescribeOptions where
  "filetoolOpts =
     \<lparr>opts_Commands =
        [''convert'' \<mapsto>
           \<lparr>ann_Args = [], ann_ArgTypes = Map.empty,
            ann_Stdin = Some \<lparr>io_ContentType = ''text/plain'',
                              io_Description = ''Raw input data (alternative to file path)'',
                              io_Schema = []\<rparr>,
            ann_Stdout = Some \<lparr>io_ContentType = ''application/json'',
                               io_Description = ''Converted output'', io_Schema = []\<rparr>,
            ann_Examples = [\<lparr>ex_Description = ''Pipe from stdin'',
                             ex_Command = ''cat data.csv | filetool convert - --format yaml'',
                             ex_Output = []\<rparr>],
            ann_Auth = None\<rparr>],
      opts_Auth = None\<rparr>"

text \<open>
  A command whose flags are declared out of alphabetical order, a group nested in a
  group (mtp_test.go, TestDeeplyNestedCommands), a root marked hidden, a tool with a
  command of its own named \<open>help\<close>, and annotations that assign the type \<open>enum\<close>.
\<close>

definition serveCmd :: Command where
  "serveCmd =
     newCommand ''serve'' ''Serve files'' True
       [newFlag ''port'' ''int'' ''8080'' ''Port number'',
        newFlag ''host'' ''string'' ''localhost'' ''Host name''] []"

definition dbTool :: Command where
  "dbTool =
     newCommand ''tool'' [] False []
       [newCommand ''db'' [] True [] [newCommand ''migrate'' ''Run migrations'' True [] []]]"

definition hiddenTool :: Command where
  "hiddenTool =
     Command ''tool'' ''A tool'' [] [] True False \<lparr>fs_formal = [], fs_SortFlags = True\<rparr>
       [newCommand ''run'' ''Run something'' True [] []]"

definition ownHelpTool :: Command where
  "ownHelpTool =
     newCommand ''tool'' [] False []
       [newCommand ''convert'' ''Convert'' True [] [],
        newCommand ''help <topic>'' ''Show the manual page of a topic'' True
          [newFlag ''pager'' ''string'' ''less'' ''Pager to use''] []]"

definition enumOverrideOpts :: DescribeOptions where
  "enumOverrideOpts =
     \<lparr>opts_Commands =
        [''_root'' \<mapsto>
           \<lparr>ann_Args = [], ann_ArgTypes = [''host'' \<mapsto> ''enum''], ann_Stdin = None,
            ann_Stdout = None, ann_Examples = [], ann_Auth = None\<rparr>],
      opts_Auth = None\<rparr>"

definition positionalOpts :: DescribeOptions where
  "positionalOpts =
     \<lparr>opts_Commands =
        [''_root'' \<mapsto>
           \<lparr>ann_Args = [\<lparr>arg_Name = ''mode'', arg_Type = ''enum'', arg_Description = [],
                          arg_Required = True, arg_Default = Nil_any, arg_Values = []\<rparr>],
            ann_ArgTypes = Map.empty, ann_Stdin = None, ann_Stdout = None,
            ann_Examples = [], ann_Auth = None\<rparr>],
      opts_Auth = None\<rparr>"

text \<open>An annotation that overrides the type of the \<open>format\<close> flag.\<close>

definition formatOverride :: CommandAnnotation where
  "formatOverride =
     \<lparr>ann_Args = [], ann_ArgTypes = [''format'' \<mapsto> ''string''], ann_Stdin = None,
      ann_Stdout = None, ann_Examples = [], ann_Auth = None\<rparr>"

section \<open>The loops as list functions\<close>

declare walkCommands.simps [simp del]

lemma skippedFlags_visibleFlag:
  "(\<not> (skippedFlags (flag_Name f) \<or> flag_Hidden f)) = visibleFlag f"
  by (auto simp: skippedFlags_def visibleFlag_def)

lemma skippedCommands_visibleChild:
  "(\<not> (cmd_Hidden sub \<or> skippedCommands (cmd_Name sub))) = visibleChild sub"
  by (auto simp: skippedCommands_def visibleChild_def)

lemma extractFlags_map_filter:
  "extractFlags cmd ann =
     map (\<lambda>f. flagArg f ann) (filter visibleFlag (VisitAll (cmd_Flags cmd)))"
proof -
  have "foldl (\<lambda>args f.
                 if skippedFlags (flag_Name f) \<or> flag_Hidden f then args
                 else args @ [flagArg f ann]) acc xs
        = acc @ map (\<lambda>f. flagArg f ann) (filter visibleFlag xs)" for acc xs
    by (induction xs arbitrary: acc) (simp_all add: skippedFlags_visibleFlag [symmetric])
  then show ?thesis by (simp add: extractFlags_def)
qed

lemma visibleSubcommands_filter:
  "visibleSubcommands cmd = filter visibleChild (cmd_Commands cmd)"
proof -
  have "foldl (\<lambda>visible sub.
                 if cmd_Hidden sub \<or> skippedCommands (cmd_Name sub) then visible
                 else visible @ [sub]) acc xs
        = acc @ filter visibleChild xs" for acc xs
    by (induction xs arbitrary: acc) (simp_all add: skippedCommands_visibleChild [symmetric])
  then show ?thesis by (simp add: visibleSubcommands_def)
qed

lemma foldl_append_concat:
  "foldl (\<lambda>acc x. acc @ g x) acc xs = acc @ concat (map g xs)"
  by (induction xs arbitrary: acc) simp_all

lemma walkCommands_leaf:
  "filter visibleChild (cmd_Commands c) = [] \<Longrightarrow>
     walkCommands c p opts = [extractCommand c (leafName p) (annotationFor opts (leafName p))]"
  by (subst walkCommands.simps)
     (simp add: visibleSubcommands_filter leafName_def annotationFor_def Let_def)

lemma walkCommands_group:
  "filter visibleChild (cmd_Commands c) \<noteq> [] \<Longrightarrow>
     walkCommands c p opts =
       concat (map (\<lambda>sub. walkCommands sub (subName p sub) opts)
                 (filter visibleChild (cmd_Commands c)))"
  by (subst walkCommands.simps) (simp add: visibleSubcommands_filter foldl_append_concat)

lemma walkCommands_sound:
  "d \<in> set (walkCommands c p opts) \<Longrightarrow>
     \<exists>n q. reaches c p n q \<and> filter visibleChild (cmd_Commands n) = []
        \<and> d = extractCommand n (leafName q) (annotationFor opts (leafName q))"
proof (induction c p opts rule: walkCommands.induct)
  case (1 cmd prefix opts)
  show ?case
  proof (cases "filter visibleChild (cmd_Commands cmd) = []")
    case True
    with "1.prems"
    have "d = extractCommand cmd (leafName prefix) (annotationFor opts (leafName prefix))"
      by (simp add: walkCommands_leaf)
    with True show ?thesis using reaches.here by blast
  next
    case False
    with "1.prems" obtain sub where sub: "sub \<in> set (filter visibleChild (cmd_Commands cmd))"
      and d: "d \<in> set (walkCommands sub (subName prefix sub) opts)"
      by (auto simp: walkCommands_group)
    from False sub
    have "length (visibleSubcommands cmd) \<noteq> 0" "sub \<in> set (visibleSubcommands cmd)"
      by (simp_all add: visibleSubcommands_filter)
    from "1.IH" [OF this d] obtain n q where
      "reaches sub (subName prefix sub) n q" "filter visibleChild (cmd_Commands n) = []"
      "d = extractCommand n (leafName q) (annotationFor opts (leafName q))" by blast
    moreover from sub have "sub \<in> set (cmd_Commands cmd)" "visibleChild sub" by simp_all
    ultimately show ?thesis using reaches.down by blast
  qed
qed

lemma walkCommands_complete:
  "reaches c p n q \<Longrightarrow> filter visibleChild (cmd_Commands n) = [] \<Longrightarrow>
     extractCommand n (leafName q) (annotationFor opts (leafName q))
       \<in> set (walkCommands c p opts)"
proof (induction rule: reaches.induct)
  case (here c p)
  then show ?case by (simp add: walkCommands_leaf)
next
  case (down sub c p n q)
  from down.hyps(1,2) have ne: "filter visibleChild (cmd_Commands c) \<noteq> []"
    by (auto simp: filter_empty_conv)
  from down show ?case
    by (subst walkCommands_group [OF ne]) auto
qed

lemma extractCommand_fields:
  "cd_Name (extractCommand cmd name ann) = name"
  "cd_Args (extractCommand cmd name ann) = positionalArgs cmd ann @ extractFlags cmd ann"
  by (simp_all add: extractCommand_def positionalArgs_def Let_def split: option.splits)

lemma Describe_Commands: "ts_Commands (Describe root opts) = walkCommands root [] opts"
  by (simp add: Describe_def Let_def split: option.splits)

lemma parseUseArgs_Type: "a \<in> set (parseUseArgs use) \<Longrightarrow> arg_Type a = ''string''"
proof -
  have step: "\<forall>a\<in>set (parseUseStep acc part). arg_Type a = ''string''"
    if "\<forall>a\<in>set acc. arg_Type a = ''string''" for acc part
    using that by (simp add: parseUseStep_def)
  have "\<forall>a\<in>set (foldl parseUseStep acc parts). arg_Type a = ''string''"
    if "\<forall>a\<in>set acc. arg_Type a = ''string''" for acc parts
    using that
  proof (induction parts arbitrary: acc)
    case Nil
    then show ?case by simp
  next
    case (Cons part parts)
    from Cons.IH [OF step [OF Cons.prems]] show ?case by simp
  qed
  from this [of "[]"] show "a \<in> set (parseUseArgs use) \<Longrightarrow> arg_Type a = ''string''"
    by (auto simp: parseUseArgs_def Let_def split: if_splits)
qed

lemma pflagTypeToMTP_range:
  "pflagTypeToMTP f \<in> {''boolean'', ''integer'', ''number'', ''array'', ''string''}"
  by (simp add: pflagTypeToMTP_def Let_def)

lemma flagArg_enum_values:
  "annotation f ''values'' = Some vals \<Longrightarrow> vals \<noteq> [] \<Longrightarrow>
     arg_Type (flagArg f ann) = ''enum'' \<and> arg_Values (flagArg f ann) = vals"
  by (simp add: flagArg_def Let_def split: option.splits)

lemma flagArg_Name: "arg_Name (flagArg f ann) = ''--'' @ flag_Name f"
  by (simp add: flagArg_def Let_def split: option.splits)

lemma Lookup_None: "(Lookup fs name = None) = (name \<notin> flag_Name ` set (fs_formal fs))"
  by (auto simp: Lookup_def find_None_iff)

lemmas example_defs =
  newFlag_def newCommand_def convertBase_def convertCmd_def validateCmd_def processCmd_def
  helpCmd_def completionCmd_def filetool_def filetoolOpts_def serveCmd_def dbTool_def
  hiddenTool_def ownHelpTool_def enumOverrideOpts_def positionalOpts_def formatOverride_def

section \<open>Facts about the helpers, the pruned tree and the examples\<close>

lemma storeFlag_find:
  "find (\<lambda>g. flag_Name g = name) fs = Some f \<Longrightarrow> flag_Name f' = name \<Longrightarrow>
     find (\<lambda>g. flag_Name g = name) (storeFlag fs name f') = Some f'
     \<and> f' \<in> set (storeFlag fs name f')"
  by (induction fs) (auto split: if_splits)

lemma EnumValues_Lookup:
  assumes "Lookup (cmd_Flags cmd) flagName = Some f"
  shows "\<exists>f'. Lookup (cmd_Flags (EnumValues cmd flagName vals)) flagName = Some f'
           \<and> f' \<in> set (fs_formal (cmd_Flags (EnumValues cmd flagName vals)))
           \<and> annotation f' ''values'' = Some vals
           \<and> visibleFlag f' = visibleFlag f"
proof -
  define m where "m = (case flag_Annotations f of None \<Rightarrow> Map.empty | Some m \<Rightarrow> m)"
  define f' where "f' = f\<lparr>flag_Annotations := Some (m(''values'' \<mapsto> vals))\<rparr>"
  from assms have name: "flag_Name f = flagName"
    by (auto simp: Lookup_def find_Some_iff)
  then have name': "flag_Name f' = flagName" by (simp add: f'_def)
  from assms have found: "find (\<lambda>g. flag_Name g = flagName) (fs_formal (cmd_Flags cmd)) = Some f"
    by (simp add: Lookup_def)
  have flags: "fs_formal (cmd_Flags (EnumValues cmd flagName vals))
                 = storeFlag (fs_formal (cmd_Flags cmd)) flagName f'"
    using assms by (cases cmd) (simp add: EnumValues_def m_def f'_def)
  have "Lookup (cmd_Flags (EnumValues cmd flagName vals)) flagName = Some f'"
    "f' \<in> set (fs_formal (cmd_Flags (EnumValues cmd flagName vals)))"
    using storeFlag_find [OF found name'] by (simp_all add: Lookup_def flags)
  moreover have "annotation f' ''values'' = Some vals"
    by (simp add: annotation_def f'_def)
  moreover have "visibleFlag f' = visibleFlag f"
    by (simp add: visibleFlag_def f'_def)
  ultimately show ?thesis by blast
qed

lemma set_VisitAll: "set (VisitAll fs) = set (fs_formal fs)"
  by (simp add: VisitAll_def)

lemma visibleSubcommands_Commands_cong:
  "filter visibleChild (cmd_Commands c) = filter visibleChild (cmd_Commands c') \<Longrightarrow>
   (\<And>name ann. extractCommand c name ann = extractCommand c' name ann) \<Longrightarrow>
     walkCommands c p opts = walkCommands c' p opts"
  by (subst (1 2) walkCommands.simps) (simp add: visibleSubcommands_filter)

lemma flagArg_enum_cases:
  assumes "arg_Type (flagArg f ann) = ''enum''"
  shows "arg_Values (flagArg f ann) \<noteq> []
     \<or> (\<exists>an. ann = Some an \<and> ann_ArgTypes an (flag_Name f) = Some ''enum'')"
proof (cases "\<exists>vals. annotation f ''values'' = Some vals \<and> vals \<noteq> []")
  case True
  then obtain vals where "annotation f ''values'' = Some vals" "vals \<noteq> []" by blast
  from flagArg_enum_values [OF this, of ann] this(2) show ?thesis by simp
next
  case False
  then have inferred: "arg_Type (flagArg f ann)
      = (case ann of
           None \<Rightarrow> pflagTypeToMTP f
         | Some a \<Rightarrow> (case ann_ArgTypes a (flag_Name f) of
                       Some override \<Rightarrow> override
                     | None \<Rightarrow> pflagTypeToMTP f))"
    by (auto simp: flagArg_def Let_def split: option.splits)
  have "pflagTypeToMTP f \<noteq> ''enum''"
    using pflagTypeToMTP_range [of f] by auto
  with assms inferred show ?thesis by (auto split: option.splits)
qed

lemma prune_fields:
  "cmd_Use (prune c) = cmd_Use c" "cmd_Short (prune c) = cmd_Short c"
  "cmd_Long (prune c) = cmd_Long c" "cmd_Version (prune c) = cmd_Version c"
  "cmd_Hidden (prune c) = cmd_Hidden c"
  "cmd_Commands (prune c) = map prune (filter visibleChild (cmd_Commands c))"
  "fs_formal (cmd_Flags (prune c)) = filter visibleFlag (fs_formal (cmd_Flags c))"
  "fs_SortFlags (cmd_Flags (prune c)) = fs_SortFlags (cmd_Flags c)"
  by (cases c; simp)+

lemma cmd_Name_prune: "cmd_Name (prune c) = cmd_Name c"
  by (simp add: cmd_Name_def prune_fields)

lemma visibleChild_prune: "visibleChild (prune c) = visibleChild c"
  by (simp add: visibleChild_def cmd_Name_prune prune_fields)

lemma subName_prune: "subName p (prune c) = subName p c"
  by (simp add: subName_def cmd_Name_def prune_fields)

lemma visible_children_prune:
  "filter visibleChild (cmd_Commands (prune c)) = map prune (filter visibleChild (cmd_Commands c))"
  by (simp add: prune_fields filter_map o_def visibleChild_prune)

lemma extractFlags_prune: "extractFlags (prune c) ann = extractFlags c ann"
  by (simp add: extractFlags_map_filter VisitAll_def prune_fields filter_sort [symmetric])

lemma extractCommand_prune: "extractCommand (prune c) name ann = extractCommand c name ann"
  by (simp add: extractCommand_def extractFlags_prune prune_fields Let_def
        cong: option.case_cong if_cong)

lemma walkCommands_prune: "walkCommands (prune c) p opts = walkCommands c p opts"
proof (induction c p opts rule: walkCommands.induct)
  case (1 cmd prefix opts)
  show ?case
  proof (cases "filter visibleChild (cmd_Commands cmd) = []")
    case True
    then have "filter visibleChild (cmd_Commands (prune cmd)) = []"
      by (simp add: visible_children_prune)
    with True show ?thesis by (simp add: walkCommands_leaf extractCommand_prune)
  next
    case False
    then have ne: "filter visibleChild (cmd_Commands (prune cmd)) \<noteq> []"
      by (simp add: visible_children_prune)
    have IH: "walkCommands (prune sub) (subName prefix sub) opts
                = walkCommands sub (subName prefix sub) opts"
      if "sub \<in> set (filter visibleChild (cmd_Commands cmd))" for sub
      using that False "1.IH" [of sub] by (simp add: visibleSubcommands_filter)
    have "walkCommands (prune cmd) prefix opts
            = concat (map (\<lambda>sub. walkCommands (prune sub) (subName prefix sub) opts)
                        (filter visibleChild (cmd_Commands cmd)))"
      by (simp add: walkCommands_group [OF ne] visible_children_prune o_def subName_prune)
    also have "\<dots> = concat (map (\<lambda>sub. walkCommands sub (subName prefix sub) opts)
                        (filter visibleChild (cmd_Commands cmd)))"
      by (rule arg_cong [where f = concat], rule map_cong [OF refl]) (rule IH)
    also have "\<dots> = walkCommands cmd prefix opts"
      by (simp add: walkCommands_group [OF False])
    finally show ?thesis .
  qed
qed

lemma filetool_children:
  "visibleChild convertCmd" "visibleChild processCmd" "visibleChild validateCmd"
  "\<not> visibleChild helpCmd" "\<not> visibleChild completionCmd"
  "cmd_Commands convertCmd = []" "cmd_Commands processCmd = []" "cmd_Commands validateCmd = []"
  "cmd_Name convertCmd = ''convert''" "cmd_Name processCmd = ''process''"
  "cmd_Name validateCmd = ''validate''" "cmd_Name helpCmd = ''help''"
  "cmd_Name completionCmd = ''completion''"
  by (simp_all add: visibleChild_def cmd_Name_def convertCmd_def convertBase_def processCmd_def
        validateCmd_def helpCmd_def completionCmd_def newCommand_def newFlag_def EnumValues_def
        Lookup_def)

lemma filetool_walk:
  "walkCommands filetool [] opts
     = [extractCommand convertCmd ''convert'' (annotationFor opts ''convert''),
        extractCommand processCmd ''process'' (annotationFor opts ''process''),
        extractCommand validateCmd ''validate'' (annotationFor opts ''validate'')]"
proof -
  have vis: "filter visibleChild (cmd_Commands filetool) = [convertCmd, processCmd, validateCmd]"
    by (simp add: filetool_def filetool_children)
  have "walkCommands filetool [] opts
          = concat (map (\<lambda>sub. walkCommands sub (subName [] sub) opts)
                      [convertCmd, processCmd, validateCmd])"
    using walkCommands_group [of filetool "[]" opts] by (simp add: vis)
  then show ?thesis
    by (simp add: walkCommands_leaf filetool_children subName_def leafName_def)
qed

section \<open>The claims\<close>

subsection \<open>The command tree walker\<close>

text \<open>
  C1. The walker emits a descriptor only for nodes with no visible child: such a node
  yields exactly one descriptor, a node with a visible child yields the concatenation of
  its visible children's walks and nothing of its own, whether or not it is runnable.
  So the descriptors emitted are those of the nodes without visible children reached
  through visible children, each named by its accumulated path: the parent's path, a
  single space and the child's name (the child's name alone under an empty path), or
  \<open>_root\<close> when the path is empty.
\<close>

theorem walkCommands_emits_leaves_only:
  "(filter visibleChild (cmd_Commands c) = [] \<longrightarrow>
      walkCommands c p opts = [extractCommand c (leafName p) (annotationFor opts (leafName p))])
   \<and> (filter visibleChild (cmd_Commands c) \<noteq> [] \<longrightarrow>
        walkCommands c p opts
          = concat (map (\<lambda>sub. walkCommands sub (subName p sub) opts)
                      (filter visibleChild (cmd_Commands c))))
   \<and> walkCommands (Command u s l v h True fl cs) p opts
       = walkCommands (Command u s l v h False fl cs) p opts
   \<and> (d \<in> set (walkCommands c p opts) \<longleftrightarrow>
        (\<exists>n q. reaches c p n q \<and> filter visibleChild (cmd_Commands n) = []
           \<and> d = extractCommand n (leafName q) (annotationFor opts (leafName q))
           \<and> cd_Name d = leafName q))
   \<and> subName p sub = (if p = [] then cmd_Name sub else p @ '' '' @ cmd_Name sub)
   \<and> leafName q' = (if q' = [] then ''_root'' else q')"
proof (intro conjI impI)
  show "walkCommands (Command u s l v h True fl cs) p opts
       = walkCommands (Command u s l v h False fl cs) p opts"
    by (intro visibleSubcommands_Commands_cong)
       (simp_all add: extractCommand_def extractFlags_def Let_def cong: option.case_cong if_cong)
next
  show "d \<in> set (walkCommands c p opts) \<longleftrightarrow>
        (\<exists>n q. reaches c p n q \<and> filter visibleChild (cmd_Commands n) = []
           \<and> d = extractCommand n (leafName q) (annotationFor opts (leafName q))
           \<and> cd_Name d = leafName q)"
  proof
    assume "d \<in> set (walkCommands c p opts)"
    from walkCommands_sound [OF this] obtain n q where
      nq: "reaches c p n q" "filter visibleChild (cmd_Commands n) = []"
        "d = extractCommand n (leafName q) (annotationFor opts (leafName q))"
      by blast
    from nq(3) have "cd_Name d = leafName q" by (simp add: extractCommand_fields)
    with nq show
      "\<exists>n q. reaches c p n q \<and> filter visibleChild (cmd_Commands n) = []
           \<and> d = extractCommand n (leafName q) (annotationFor opts (leafName q))
           \<and> cd_Name d = leafName q"
      by blast
  next
    assume "\<exists>n q. reaches c p n q \<and> filter visibleChild (cmd_Commands n) = []
           \<and> d = extractCommand n (leafName q) (annotationFor opts (leafName q))
           \<and> cd_Name d = leafName q"
    then show "d \<in> set (walkCommands c p opts)"
      using walkCommands_complete by blast
  qed
qed (simp_all add: walkCommands_leaf walkCommands_group subName_def leafName_def)

theorem walkCommands_emits_leaves_only_witness:
  "filter visibleChild (cmd_Commands processCmd) = []
   \<and> walkCommands processCmd [] None = [extractCommand processCmd ''_root'' None]
   \<and> filter visibleChild (cmd_Commands dbTool) \<noteq> []
   \<and> map cd_Name (walkCommands dbTool [] None) = [''db migrate'']
   \<and> (\<exists>n q. reaches dbTool [] n q \<and> filter visibleChild (cmd_Commands n) = []
         \<and> extractCommand (newCommand ''migrate'' ''Run migrations'' True [] []) ''db migrate'' None
             = extractCommand n (leafName q) None
         \<and> leafName q = ''db migrate'')"
proof -
  let ?migrate = "newCommand ''migrate'' ''Run migrations'' True [] []"
  let ?db = "newCommand ''db'' [] True [] [?migrate]"
  note main = walkCommands_emits_leaves_only
  have leaf: "filter visibleChild (cmd_Commands processCmd) = []"
    by (simp add: processCmd_def newCommand_def)
  have root: "walkCommands processCmd [] None = [extractCommand processCmd ''_root'' None]"
    using leaf main [of processCmd "[]" None, THEN conjunct1]
    by (simp add: annotationFor_def leafName_def)
  have group: "filter visibleChild (cmd_Commands dbTool) \<noteq> []"
    by (simp add: dbTool_def newCommand_def visibleChild_def cmd_Name_def)
  have group': "filter visibleChild (cmd_Commands ?db) \<noteq> []"
    by (simp add: newCommand_def visibleChild_def cmd_Name_def)
  have leaf': "filter visibleChild (cmd_Commands ?migrate) = []"
    by (simp add: newCommand_def)
  have w3: "walkCommands ?migrate ''db migrate'' None
              = [extractCommand ?migrate ''db migrate'' None]"
    using leaf' main [of ?migrate "''db migrate''" None, THEN conjunct1]
    by (simp add: annotationFor_def leafName_def)
  have w2: "walkCommands ?db ''db'' None = walkCommands ?migrate ''db migrate'' None"
    using group' main [of ?db "''db''" None, THEN conjunct2, THEN conjunct1]
    by (simp add: newCommand_def visibleChild_def cmd_Name_def subName_def)
  have w1: "walkCommands dbTool [] None = walkCommands ?db ''db'' None"
    using group main [of dbTool "[]" None, THEN conjunct2, THEN conjunct1]
    by (simp add: dbTool_def newCommand_def visibleChild_def cmd_Name_def subName_def)
  have walk: "walkCommands dbTool [] None = [extractCommand ?migrate ''db migrate'' None]"
    by (simp only: w1 w2 w3)
  then have "extractCommand ?migrate ''db migrate'' None \<in> set (walkCommands dbTool [] None)"
    by simp
  with main [of dbTool "[]" None _ _ _ _ _ _ _ "extractCommand ?migrate ''db migrate'' None",
             THEN conjunct2, THEN conjunct2, THEN conjunct2, THEN conjunct1]
  obtain n q where nq: "reaches dbTool [] n q" "filter visibleChild (cmd_Commands n) = []"
    "extractCommand ?migrate ''db migrate'' None
       = extractCommand n (leafName q) (annotationFor None (leafName q))"
    "cd_Name (extractCommand ?migrate ''db migrate'' None) = leafName q"
    by blast
  from nq(4) have "leafName q = ''db migrate''" by (simp add: extractCommand_fields)
  with nq(1,2,3)
  have "\<exists>n q. reaches dbTool [] n q \<and> filter visibleChild (cmd_Commands n) = []
         \<and> extractCommand ?migrate ''db migrate'' None = extractCommand n (leafName q) None
         \<and> leafName q = ''db migrate''"
    by (intro exI [of _ n] exI [of _ q]) (simp add: annotationFor_def)
  with leaf root group walk show ?thesis by (simp add: extractCommand_fields)
qed

subsection \<open>One command's arguments\<close>

text \<open>
  C2. The claim reads: the args list holds the positional ArgDescriptors first, followed
  by the command's flags in their declaration order. The positional part does come
  first, but the flags follow in the order \<open>VisitAll\<close> visits them, which is sorted by
  name in the flag set cobra creates: \<open>serveCmd\<close> declares \<open>port\<close> before \<open>host\<close> and
  its descriptor lists \<open>--host\<close> before \<open>--port\<close>.
\<close>

theorem declaration_order_counterexample:
  "map flag_Name (filter visibleFlag (fs_formal (cmd_Flags serveCmd))) = [''port'', ''host'']
   \<and> map arg_Name (cd_Args (extractCommand serveCmd ''_root'' None)) = [''--host'', ''--port'']
   \<and> cd_Args (extractCommand serveCmd ''_root'' None)
       \<noteq> positionalArgs serveCmd None
           @ map (\<lambda>f. flagArg f None) (filter visibleFlag (fs_formal (cmd_Flags serveCmd)))"
proof -
  have decl: "map flag_Name (filter visibleFlag (fs_formal (cmd_Flags serveCmd)))
                = [''port'', ''host'']"
    by (simp add: serveCmd_def newCommand_def newFlag_def visibleFlag_def)
  have pos: "positionalArgs serveCmd None = []"
    by (simp add: positionalArgs_def serveCmd_def newCommand_def parseUseArgs_def Fields_def
          isSpace_def)
  have vis: "map flag_Name (filter visibleFlag (VisitAll (cmd_Flags serveCmd)))
                = [''host'', ''port'']"
    by (simp add: serveCmd_def newCommand_def newFlag_def visibleFlag_def VisitAll_def)
  have names: "map arg_Name (cd_Args (extractCommand serveCmd ''_root'' None))
                = map (\<lambda>n. ''--'' @ n)
                    (map flag_Name (filter visibleFlag (VisitAll (cmd_Flags serveCmd))))"
    by (simp add: extractCommand_fields extractFlags_map_filter pos flagArg_Name o_def)
  have emitted: "map arg_Name (cd_Args (extractCommand serveCmd ''_root'' None))
                   = [''--host'', ''--port'']"
    unfolding names vis by simp
  have "map arg_Name (positionalArgs serveCmd None
           @ map (\<lambda>f. flagArg f None) (filter visibleFlag (fs_formal (cmd_Flags serveCmd))))
          = map (\<lambda>n. ''--'' @ n)
              (map flag_Name (filter visibleFlag (fs_formal (cmd_Flags serveCmd))))"
    by (simp add: pos flagArg_Name o_def)
  then have declared: "map arg_Name (positionalArgs serveCmd None
           @ map (\<lambda>f. flagArg f None) (filter visibleFlag (fs_formal (cmd_Flags serveCmd))))
          = [''--port'', ''--host'']"
    unfolding decl by simp
  have differ: "cd_Args (extractCommand serveCmd ''_root'' None)
       \<noteq> positionalArgs serveCmd None
           @ map (\<lambda>f. flagArg f None) (filter visibleFlag (fs_formal (cmd_Flags serveCmd)))"
  proof
    assume "cd_Args (extractCommand serveCmd ''_root'' None)
       = positionalArgs serveCmd None
           @ map (\<lambda>f. flagArg f None) (filter visibleFlag (fs_formal (cmd_Flags serveCmd)))"
    then have "map arg_Name (cd_Args (extractCommand serveCmd ''_root'' None))
       = map arg_Name (positionalArgs serveCmd None
           @ map (\<lambda>f. flagArg f None) (filter visibleFlag (fs_formal (cmd_Flags serveCmd))))"
      by (rule arg_cong)
    then show False unfolding emitted declared by simp
  qed
  from decl emitted differ show ?thesis by (intro conjI)
qed

text \<open>
  C2, amended. The args list of a command's descriptor holds the positional
  ArgDescriptors first (the annotation's list if it has one, those read from the usage
  string otherwise), followed by one descriptor for each visible flag, in the order
  \<open>VisitAll\<close> visits the flags: sorted by name when the flag set's \<open>SortFlags\<close> is set
  (as cobra creates it), in declaration order when it is cleared.
\<close>

theorem extractCommand_args_order:
  "cd_Args (extractCommand cmd name ann)
     = (case ann of
          None \<Rightarrow> parseUseArgs (cmd_Use cmd)
        | Some a \<Rightarrow> if ann_Args a = [] then parseUseArgs (cmd_Use cmd) else ann_Args a)
       @ map (\<lambda>f. flagArg f ann)
           (filter visibleFlag
              (if fs_SortFlags (cmd_Flags cmd) then sort_key flag_Name (fs_formal (cmd_Flags cmd))
               else fs_formal (cmd_Flags cmd)))"
  by (simp add: extractCommand_fields extractFlags_map_filter positionalArgs_def VisitAll_def)

theorem extractCommand_args_order_witness:
  "map arg_Name (cd_Args (extractCommand convertCmd ''convert'' None))
     = [''input_file'', ''--format'', ''--pretty'']
   \<and> map arg_Name (cd_Args (extractCommand
         (Command ''serve'' [] [] [] False True (cmd_Flags serveCmd\<lparr>fs_SortFlags := False\<rparr>) [])
         ''serve'' None))
     = [''--port'', ''--host'']"
  using extractCommand_args_order [of convertCmd "''convert''" None]
    extractCommand_args_order
      [of "Command ''serve'' [] [] [] False True (cmd_Flags serveCmd\<lparr>fs_SortFlags := False\<rparr>) []"
          "''serve''" None]
  by (simp add: example_defs EnumValues_def Lookup_def visibleFlag_def flagArg_Name o_def
        parseUseArgs_def Fields_def isSpace_def parseUseStep_def HasPrefix_def HasSuffix_def
        Trim_def)

subsection \<open>Flag types, enum values and defaults\<close>

text \<open>
  C3. The claim reads: the inferred type tag is "boolean" for the boolean kind,
  "integer" for every integer width, "number" for every float width, "array" for any
  slice or array kind, and "string" for everything else. \<open>pflagTypeToMTP\<close> lists four
  slice kinds only; a flag declared with pflag's \<open>BoolSlice\<close> (value type
  \<open>boolSlice\<close>) falls to the default branch and is tagged "string", while the same flag
  declared with \<open>IntSlice\<close> is tagged "array".
\<close>

theorem pflagTypeToMTP_boolSlice:
  "pflagTypeToMTP (newFlag ''tags'' ''boolSlice'' ''[]'' ''Tags to set'') = ''string''
   \<and> pflagTypeToMTP (newFlag ''tags'' ''intSlice'' ''[]'' ''Tags to set'') = ''array''"
  by (simp add: pflagTypeToMTP_def newFlag_def)

text \<open>
  C4. The claim reads: every ArgDescriptor of type "enum" in the schema carries a
  non-empty value list, also when an ArgTypes override or an annotation-supplied
  positional argument assigns the type. The code passes the annotation's types through
  unchecked: an ArgTypes override \<open>host \<mapsto> enum\<close> on a flag with no value list, and an
  annotation's positional argument of type "enum" with no values, are both emitted with
  type "enum" and an empty value list.
\<close>

theorem enum_override_counterexample:
  "map (\<lambda>d. map (\<lambda>a. (arg_Name a, arg_Type a, arg_Values a)) (cd_Args d))
       (ts_Commands (Describe serveCmd (Some enumOverrideOpts)))
     = [[(''--host'', ''enum'', []), (''--port'', ''integer'', [])]]
   \<and> map (\<lambda>d. map (\<lambda>a. (arg_Name a, arg_Type a, arg_Values a)) (cd_Args d))
       (ts_Commands (Describe serveCmd (Some positionalOpts)))
     = [[(''mode'', ''enum'', []), (''--host'', ''string'', []), (''--port'', ''integer'', [])]]"
  by (simp add: Describe_Commands walkCommands_leaf leafName_def annotationFor_def
        extractCommand_fields positionalArgs_def extractFlags_map_filter serveCmd_def
        newCommand_def newFlag_def enumOverrideOpts_def positionalOpts_def VisitAll_def
        visibleFlag_def flagArg_def annotation_def pflagTypeToMTP_def flagDefault_def
        parseUseArgs_def Fields_def isSpace_def)

text \<open>
  C4, amended. Every ArgDescriptor of type "enum" in the schema carries a non-empty
  value list, unless the annotation of its command assigned the type: the descriptor is
  one of the annotation's positional arguments, or the ArgTypes override of its flag is
  "enum". For a command without an annotation the list is never empty.
\<close>

theorem enum_values_unless_annotated:
  assumes "d \<in> set (ts_Commands (Describe root opts))" and "a \<in> set (cd_Args d)"
    and "arg_Type a = ''enum''"
  shows "(arg_Values a \<noteq> []
          \<or> (\<exists>an. annotationFor opts (cd_Name d) = Some an
                \<and> (a \<in> set (ann_Args an)
                    \<or> (\<exists>f. arg_Name a = ''--'' @ f \<and> ann_ArgTypes an f = Some ''enum''))))
     \<and> (annotationFor opts (cd_Name d) = None \<longrightarrow> arg_Values a \<noteq> [])"
proof -
  from assms(1) have "d \<in> set (walkCommands root [] opts)" by (simp add: Describe_Commands)
  from walkCommands_sound [OF this] obtain n q where
    d: "d = extractCommand n (leafName q) (annotationFor opts (leafName q))" by blast
  define ann where "ann = annotationFor opts (leafName q)"
  from d have name: "cd_Name d = leafName q"
    and args: "cd_Args d = positionalArgs n ann @ extractFlags n ann"
    by (simp_all add: extractCommand_fields ann_def)
  from assms(2) args consider (pos) "a \<in> set (positionalArgs n ann)"
    | (flag) "a \<in> set (extractFlags n ann)" by auto
  then have main: "arg_Values a \<noteq> []
      \<or> (\<exists>an. ann = Some an
            \<and> (a \<in> set (ann_Args an)
                \<or> (\<exists>f. arg_Name a = ''--'' @ f \<and> ann_ArgTypes an f = Some ''enum'')))"
  proof cases
    case pos
    from assms(3) have "a \<notin> set (parseUseArgs (cmd_Use n))"
      using parseUseArgs_Type [of a "cmd_Use n"] by auto
    with pos show ?thesis
      by (auto simp: positionalArgs_def split: option.splits if_splits)
  next
    case flag
    then obtain f where f: "a = flagArg f ann"
      by (auto simp: extractFlags_map_filter)
    with assms(3) flagArg_enum_cases [of f ann] show ?thesis
      by (auto simp: flagArg_Name)
  qed
  then show ?thesis unfolding name ann_def by auto
qed

theorem enum_values_unless_annotated_witness:
  "extractCommand serveCmd ''_root'' (opts_Commands enumOverrideOpts ''_root'')
     \<in> set (ts_Commands (Describe serveCmd (Some enumOverrideOpts)))
   \<and> flagArg (newFlag ''host'' ''string'' ''localhost'' ''Host name'')
         (opts_Commands enumOverrideOpts ''_root'')
       \<in> set (cd_Args (extractCommand serveCmd ''_root'' (opts_Commands enumOverrideOpts ''_root'')))
   \<and> arg_Type (flagArg (newFlag ''host'' ''string'' ''localhost'' ''Host name'')
                  (opts_Commands enumOverrideOpts ''_root'')) = ''enum''
   \<and> arg_Values (flagArg (newFlag ''host'' ''string'' ''localhost'' ''Host name'')
                  (opts_Commands enumOverrideOpts ''_root'')) = []
   \<and> (\<exists>an. annotationFor (Some enumOverrideOpts)
               (cd_Name (extractCommand serveCmd ''_root'' (opts_Commands enumOverrideOpts ''_root'')))
             = Some an
         \<and> (flagArg (newFlag ''host'' ''string'' ''localhost'' ''Host name'')
               (opts_Commands enumOverrideOpts ''_root'') \<in> set (ann_Args an)
             \<or> (\<exists>f. arg_Name (flagArg (newFlag ''host'' ''string'' ''localhost'' ''Host name'')
                              (opts_Commands enumOverrideOpts ''_root'')) = ''--'' @ f
                    \<and> ann_ArgTypes an f = Some ''enum'')))
   \<and> extractCommand convertCmd ''convert'' None \<in> set (ts_Commands (Describe filetool None))
   \<and> (\<exists>a \<in> set (cd_Args (extractCommand convertCmd ''convert'' None)).
         arg_Name a = ''--format'' \<and> arg_Type a = ''enum''
         \<and> arg_Values a = [''json'', ''csv'', ''yaml''])"
proof -
  let ?ann = "opts_Commands enumOverrideOpts ''_root''"
  let ?d = "extractCommand serveCmd ''_root'' ?ann"
  let ?host = "newFlag ''host'' ''string'' ''localhost'' ''Host name''"
  let ?a = "flagArg ?host ?ann"
  have h1: "?d \<in> set (ts_Commands (Describe serveCmd (Some enumOverrideOpts)))"
    by (simp add: Describe_Commands walkCommands_leaf leafName_def annotationFor_def
          serveCmd_def newCommand_def)
  have h2: "?a \<in> set (cd_Args ?d)"
    by (simp add: extractCommand_fields extractFlags_map_filter serveCmd_def newCommand_def
          newFlag_def VisitAll_def visibleFlag_def)
  have h3: "arg_Type ?a = ''enum''"
    by (simp add: flagArg_def newFlag_def enumOverrideOpts_def annotation_def flagDefault_def)
  have none: "arg_Values ?a = []"
    by (simp add: flagArg_def newFlag_def enumOverrideOpts_def annotation_def flagDefault_def)
  from enum_values_unless_annotated [OF h1 h2 h3] none
  have over: "\<exists>an. annotationFor (Some enumOverrideOpts) (cd_Name ?d) = Some an
         \<and> (?a \<in> set (ann_Args an)
             \<or> (\<exists>f. arg_Name ?a = ''--'' @ f \<and> ann_ArgTypes an f = Some ''enum''))"
    by simp
  let ?c = "extractCommand convertCmd ''convert'' None"
  let ?format = "newFlag ''format'' ''string'' ''json'' ''Output format''
                   \<lparr>flag_Annotations := Some [''values'' \<mapsto> [''json'', ''csv'', ''yaml'']]\<rparr>"
  let ?b = "flagArg ?format None"
  have k1: "?c \<in> set (ts_Commands (Describe filetool None))"
    by (simp add: Describe_Commands filetool_walk annotationFor_def)
  have k2: "?b \<in> set (cd_Args ?c)"
    by (simp add: extractCommand_fields extractFlags_map_filter convertCmd_def convertBase_def
          EnumValues_def Lookup_def newCommand_def newFlag_def VisitAll_def visibleFlag_def)
  have k3: "arg_Type ?b = ''enum''" "arg_Name ?b = ''--format''"
    by (simp_all add: flagArg_def newFlag_def annotation_def flagDefault_def)
  have k4: "annotationFor None (cd_Name ?c) = None"
    by (simp add: annotationFor_def)
  from enum_values_unless_annotated [OF k1 k2 k3(1)] k4
  have "arg_Values ?b \<noteq> []" by blast
  moreover have "arg_Values ?b = [''json'', ''csv'', ''yaml'']"
    by (simp add: flagArg_def newFlag_def annotation_def flagDefault_def)
  ultimately have "\<exists>a \<in> set (cd_Args ?c).
         arg_Name a = ''--format'' \<and> arg_Type a = ''enum''
         \<and> arg_Values a = [''json'', ''csv'', ''yaml'']"
    using k2 k3 by blast
  with h1 h2 h3 none over k1 show ?thesis
    by (intro conjI)
qed

text \<open>
  C5. For every flag the emitted default is: \<open>true\<close> when a boolean flag's textual
  default is "true" and absent otherwise; for the integer and float kinds, absent when
  the textual default is empty or "0" and the textual default itself otherwise; for all
  other kinds, absent when the textual default is empty or "[]" and the textual default
  itself otherwise. The descriptor built for the flag carries exactly that default.
\<close>

theorem flagArg_default_policy:
  "flagDefault f =
     (if flag_ValueType f = ''bool'' then
        (if flag_DefValue f = ''true'' then Bool_any True else Nil_any)
      else if flag_ValueType f \<in> {''int'', ''int8'', ''int16'', ''int32'', ''int64'',
                ''uint'', ''uint8'', ''uint16'', ''uint32'', ''uint64'',
                ''float32'', ''float64''} then
        (if flag_DefValue f = '''' \<or> flag_DefValue f = ''0'' then Nil_any
         else String_any (flag_DefValue f))
      else
        (if flag_DefValue f = '''' \<or> flag_DefValue f = ''[]'' then Nil_any
         else String_any (flag_DefValue f)))
   \<and> arg_Default (flagArg f ann) = flagDefault f"
proof
  show "arg_Default (flagArg f ann) = flagDefault f"
    by (simp add: flagArg_def Let_def split: option.splits)
qed (simp add: flagDefault_def Let_def)

theorem flagArg_default_policy_witness:
  "flagDefault (newFlag ''color'' ''bool'' ''true'' ''Colorize output'') = Bool_any True
   \<and> arg_Default (flagArg (newFlag ''verbose'' ''bool'' ''false'' ''Verbose'') None) = Nil_any
   \<and> arg_Default (flagArg (newFlag ''port'' ''int'' ''0'' ''Port number'') None) = Nil_any
   \<and> arg_Default (flagArg (newFlag ''port'' ''int'' ''8080'' ''Port number'') None)
       = String_any ''8080''
   \<and> arg_Default (flagArg (newFlag ''tags'' ''stringSlice'' ''[]'' ''Tags'') None) = Nil_any
   \<and> arg_Default (flagArg (newFlag ''format'' ''string'' ''json'' ''Output format'') None)
       = String_any ''json''"
  using flagArg_default_policy [of "newFlag ''color'' ''bool'' ''true'' ''Colorize output''" None]
    flagArg_default_policy [of "newFlag ''verbose'' ''bool'' ''false'' ''Verbose''" None]
    flagArg_default_policy [of "newFlag ''port'' ''int'' ''0'' ''Port number''" None]
    flagArg_default_policy [of "newFlag ''port'' ''int'' ''8080'' ''Port number''" None]
    flagArg_default_policy [of "newFlag ''tags'' ''stringSlice'' ''[]'' ''Tags''" None]
    flagArg_default_policy [of "newFlag ''format'' ''string'' ''json'' ''Output format''" None]
  by (simp add: newFlag_def)

subsection \<open>What never reaches the schema\<close>

text \<open>
  C6. The claim reads: no command marked hidden (nor any descendant of it), no command
  named \<open>help\<close> or \<open>completion\<close>, no hidden flag and no flag named \<open>help\<close>,
  \<open>mtp-describe\<close> or \<open>version\<close> ever contributes a descriptor. The root handed to
  \<open>Describe\<close> is never filtered: \<open>hiddenTool\<close> is marked hidden, and the schema still
  holds the descriptor of its child \<open>run\<close>.
\<close>

theorem hidden_root_counterexample:
  "cmd_Hidden hiddenTool
   \<and> cmd_Commands hiddenTool = [newCommand ''run'' ''Run something'' True [] []]
   \<and> ts_Commands (Describe hiddenTool None)
       = [extractCommand (newCommand ''run'' ''Run something'' True [] []) ''run'' None]"
  by (simp add: Describe_Commands hiddenTool_def newCommand_def walkCommands_group
        walkCommands_leaf visibleChild_def cmd_Name_def subName_def leafName_def
        annotationFor_def)

text \<open>
  C6, amended. Below the root, no command marked hidden (nor any descendant of it) and
  no command named \<open>help\<close> or \<open>completion\<close> (nor any descendant of it), and in every
  command no flag marked hidden and no flag named \<open>help\<close>, \<open>mtp-describe\<close> or
  \<open>version\<close>, contributes to the schema, whatever the annotations: the schema is that of
  the tree with all of these removed, every descriptor belongs to a node reached from
  the root through visible children only, and each of its flag descriptors is built
  from a visible flag of that node. The root itself is walked whatever its mark or name.
\<close>

theorem invisible_parts_contribute_nothing:
  "Describe (prune root) opts = Describe root opts
   \<and> (d \<in> set (ts_Commands (Describe root opts)) \<longrightarrow>
        (\<exists>n q. reaches root [] n q
           \<and> d = extractCommand n (leafName q) (annotationFor opts (leafName q))
           \<and> (\<forall>a\<in>set (extractFlags n (annotationFor opts (leafName q))).
                 \<exists>f\<in>set (fs_formal (cmd_Flags n)).
                   visibleFlag f \<and> a = flagArg f (annotationFor opts (leafName q)))))"
proof (intro conjI impI)
  show "Describe (prune root) opts = Describe root opts"
    by (simp add: Describe_def walkCommands_prune prune_fields cmd_Name_def Let_def
          cong: if_cong)
next
  assume "d \<in> set (ts_Commands (Describe root opts))"
  then have "d \<in> set (walkCommands root [] opts)" by (simp add: Describe_Commands)
  from walkCommands_sound [OF this] obtain n q where
    nq: "reaches root [] n q"
      "d = extractCommand n (leafName q) (annotationFor opts (leafName q))"
    by blast
  have "\<forall>a\<in>set (extractFlags n (annotationFor opts (leafName q))).
          \<exists>f\<in>set (fs_formal (cmd_Flags n)).
            visibleFlag f \<and> a = flagArg f (annotationFor opts (leafName q))"
    by (auto simp: extractFlags_map_filter set_VisitAll)
  with nq show "\<exists>n q. reaches root [] n q
           \<and> d = extractCommand n (leafName q) (annotationFor opts (leafName q))
           \<and> (\<forall>a\<in>set (extractFlags n (annotationFor opts (leafName q))).
                 \<exists>f\<in>set (fs_formal (cmd_Flags n)).
                   visibleFlag f \<and> a = flagArg f (annotationFor opts (leafName q)))"
    by blast
qed

theorem invisible_parts_contribute_nothing_witness:
  "map cmd_Name (cmd_Commands filetool)
     = [''completion'', ''convert'', ''help'', ''process'', ''validate'']
   \<and> map cmd_Name (cmd_Commands (prune filetool)) = [''convert'', ''process'', ''validate'']
   \<and> Describe (prune filetool) (Some filetoolOpts) = Describe filetool (Some filetoolOpts)
   \<and> map cd_Name (ts_Commands (Describe filetool (Some filetoolOpts)))
       = [''convert'', ''process'', ''validate'']
   \<and> (\<exists>n q. reaches filetool [] n q
         \<and> extractCommand convertCmd ''convert'' (annotationFor (Some filetoolOpts) ''convert'')
             = extractCommand n (leafName q) (annotationFor (Some filetoolOpts) (leafName q))
         \<and> (\<forall>a\<in>set (extractFlags n (annotationFor (Some filetoolOpts) (leafName q))).
               \<exists>f\<in>set (fs_formal (cmd_Flags n)).
                 visibleFlag f \<and> a = flagArg f (annotationFor (Some filetoolOpts) (leafName q))))"
proof -
  note main = invisible_parts_contribute_nothing
    [of filetool "Some filetoolOpts"
        "extractCommand convertCmd ''convert'' (annotationFor (Some filetoolOpts) ''convert'')"]
  have kids: "map cmd_Name (cmd_Commands filetool)
     = [''completion'', ''convert'', ''help'', ''process'', ''validate'']"
    by (simp add: filetool_def filetool_children)
  have pruned: "map cmd_Name (cmd_Commands (prune filetool))
     = [''convert'', ''process'', ''validate'']"
    by (simp add: prune_fields filetool_def filetool_children cmd_Name_prune o_def)
  have cmds: "ts_Commands (Describe filetool (Some filetoolOpts))
     = [extractCommand convertCmd ''convert'' (annotationFor (Some filetoolOpts) ''convert''),
        extractCommand processCmd ''process'' (annotationFor (Some filetoolOpts) ''process''),
        extractCommand validateCmd ''validate'' (annotationFor (Some filetoolOpts) ''validate'')]"
    by (simp add: Describe_Commands filetool_walk)
  then have names: "map cd_Name (ts_Commands (Describe filetool (Some filetoolOpts)))
       = [''convert'', ''process'', ''validate'']"
    by (simp add: extractCommand_fields)
  from cmds have "extractCommand convertCmd ''convert'' (annotationFor (Some filetoolOpts) ''convert'')
      \<in> set (ts_Commands (Describe filetool (Some filetoolOpts)))"
    by simp
  with main kids pruned names show ?thesis by blast
qed

subsection \<open>Annotations\<close>

text \<open>
  C7. With an annotation for the command: a non-empty positional list of the annotation
  replaces the list read from the usage string, an empty one leaves the usage string's
  list in place; the flags' descriptors are the auto-extracted ones, the same in number,
  order and every field but the type; stdin, stdout, examples and auth are the
  annotation's. With no annotation those four fields are absent.
\<close>

theorem extractCommand_annotation_merge:
  "cd_Args (extractCommand cmd name ann)
     = (case ann of
          None \<Rightarrow> parseUseArgs (cmd_Use cmd)
        | Some a \<Rightarrow> if ann_Args a = [] then parseUseArgs (cmd_Use cmd) else ann_Args a)
       @ extractFlags cmd ann
   \<and> map (\<lambda>a. a\<lparr>arg_Type := []\<rparr>) (extractFlags cmd ann)
       = map (\<lambda>a. a\<lparr>arg_Type := []\<rparr>) (extractFlags cmd None)
   \<and> (case ann of
         None \<Rightarrow>
           cd_Stdin (extractCommand cmd name ann) = None
           \<and> cd_Stdout (extractCommand cmd name ann) = None
           \<and> cd_Examples (extractCommand cmd name ann) = []
           \<and> cd_Auth (extractCommand cmd name ann) = None
       | Some a \<Rightarrow>
           cd_Stdin (extractCommand cmd name ann) = ann_Stdin a
           \<and> cd_Stdout (extractCommand cmd name ann) = ann_Stdout a
           \<and> cd_Examples (extractCommand cmd name ann) = ann_Examples a
           \<and> cd_Auth (extractCommand cmd name ann) = ann_Auth a)"
proof (intro conjI)
  show "cd_Args (extractCommand cmd name ann)
     = (case ann of
          None \<Rightarrow> parseUseArgs (cmd_Use cmd)
        | Some a \<Rightarrow> if ann_Args a = [] then parseUseArgs (cmd_Use cmd) else ann_Args a)
       @ extractFlags cmd ann"
    by (simp add: extractCommand_fields positionalArgs_def)
next
  have "(flagArg f ann)\<lparr>arg_Type := []\<rparr> = (flagArg f None)\<lparr>arg_Type := []\<rparr>" for f
    by (simp add: flagArg_def Let_def split: option.splits)
  then show "map (\<lambda>a. a\<lparr>arg_Type := []\<rparr>) (extractFlags cmd ann)
       = map (\<lambda>a. a\<lparr>arg_Type := []\<rparr>) (extractFlags cmd None)"
    by (simp add: extractFlags_map_filter o_def)
next
  show "case ann of
         None \<Rightarrow>
           cd_Stdin (extractCommand cmd name ann) = None
           \<and> cd_Stdout (extractCommand cmd name ann) = None
           \<and> cd_Examples (extractCommand cmd name ann) = []
           \<and> cd_Auth (extractCommand cmd name ann) = None
       | Some a \<Rightarrow>
           cd_Stdin (extractCommand cmd name ann) = ann_Stdin a
           \<and> cd_Stdout (extractCommand cmd name ann) = ann_Stdout a
           \<and> cd_Examples (extractCommand cmd name ann) = ann_Examples a
           \<and> cd_Auth (extractCommand cmd name ann) = ann_Auth a"
    by (simp add: extractCommand_def Let_def split: option.splits)
qed

theorem extractCommand_annotation_merge_witness:
  "map arg_Name (cd_Args (extractCommand serveCmd ''_root'' (opts_Commands positionalOpts ''_root'')))
     = [''mode'', ''--host'', ''--port'']
   \<and> map arg_Name (cd_Args (extractCommand convertCmd ''convert''
                                (opts_Commands filetoolOpts ''convert'')))
     = [''input_file'', ''--format'', ''--pretty'']
   \<and> cd_Stdout (extractCommand convertCmd ''convert'' (opts_Commands filetoolOpts ''convert''))
     = Some \<lparr>io_ContentType = ''application/json'', io_Description = ''Converted output'',
             io_Schema = []\<rparr>
   \<and> opts_Commands filetoolOpts ''process'' = None
   \<and> cd_Stdout (extractCommand processCmd ''process'' (opts_Commands filetoolOpts ''process''))
     = None"
  using extractCommand_annotation_merge
          [of serveCmd "''_root''" "opts_Commands positionalOpts ''_root''"]
    extractCommand_annotation_merge
          [of convertCmd "''convert''" "opts_Commands filetoolOpts ''convert''"]
    extractCommand_annotation_merge
          [of processCmd "''process''" "opts_Commands filetoolOpts ''process''"]
  by (simp add: example_defs EnumValues_def Lookup_def extractFlags_map_filter VisitAll_def
        visibleFlag_def flagArg_Name o_def parseUseArgs_def Fields_def isSpace_def
        parseUseStep_def HasPrefix_def HasSuffix_def Trim_def)

subsection \<open>The EnumValues helper\<close>

text \<open>
  C8. A flag carrying a non-empty enumerated value list is emitted with type "enum" and
  exactly that list, whatever the inferred tag and whatever the ArgTypes override of
  the command's annotation. \<open>EnumValues\<close>, called for a flag the command has, attaches
  the list to it, so the flag's descriptor (emitted when the flag is visible) has type
  "enum" and those values.
\<close>

theorem EnumValues_forces_enum:
  "(annotation g ''values'' = Some vs \<and> vs \<noteq> [] \<longrightarrow>
      arg_Type (flagArg g ann) = ''enum'' \<and> arg_Values (flagArg g ann) = vs)
   \<and> (Lookup (cmd_Flags cmd) flagName = Some f \<and> vals \<noteq> [] \<longrightarrow>
        (\<exists>f'. Lookup (cmd_Flags (EnumValues cmd flagName vals)) flagName = Some f'
           \<and> annotation f' ''values'' = Some vals
           \<and> arg_Type (flagArg f' ann) = ''enum'' \<and> arg_Values (flagArg f' ann) = vals
           \<and> (visibleFlag f \<longrightarrow>
                flagArg f' ann \<in> set (extractFlags (EnumValues cmd flagName vals) ann))))"
proof (intro conjI impI)
  assume "annotation g ''values'' = Some vs \<and> vs \<noteq> []"
  then show "arg_Type (flagArg g ann) = ''enum''" "arg_Values (flagArg g ann) = vs"
    using flagArg_enum_values [of g vs ann] by simp_all
next
  assume a: "Lookup (cmd_Flags cmd) flagName = Some f \<and> vals \<noteq> []"
  then obtain f' where f':
    "Lookup (cmd_Flags (EnumValues cmd flagName vals)) flagName = Some f'"
    "f' \<in> set (fs_formal (cmd_Flags (EnumValues cmd flagName vals)))"
    "annotation f' ''values'' = Some vals" "visibleFlag f' = visibleFlag f"
    using EnumValues_Lookup [of cmd flagName f vals] by blast
  from a f'(3) have "arg_Type (flagArg f' ann) = ''enum''" "arg_Values (flagArg f' ann) = vals"
    using flagArg_enum_values [of f' vals ann] by simp_all
  moreover have "flagArg f' ann \<in> set (extractFlags (EnumValues cmd flagName vals) ann)"
    if "visibleFlag f"
    using that f'(2,4) by (simp add: extractFlags_map_filter set_VisitAll)
  ultimately show "\<exists>f'. Lookup (cmd_Flags (EnumValues cmd flagName vals)) flagName = Some f'
           \<and> annotation f' ''values'' = Some vals
           \<and> arg_Type (flagArg f' ann) = ''enum'' \<and> arg_Values (flagArg f' ann) = vals
           \<and> (visibleFlag f \<longrightarrow>
                flagArg f' ann \<in> set (extractFlags (EnumValues cmd flagName vals) ann))"
    using f'(1,3) by blast
qed

theorem EnumValues_forces_enum_witness:
  "annotation (newFlag ''format'' ''string'' ''json'' ''Output format''
                 \<lparr>flag_Annotations := Some [''values'' \<mapsto> [''json'', ''csv'']]\<rparr>) ''values''
     = Some [''json'', ''csv'']
   \<and> ann_ArgTypes formatOverride ''format'' = Some ''string''
   \<and> arg_Type (flagArg (newFlag ''format'' ''string'' ''json'' ''Output format''
                 \<lparr>flag_Annotations := Some [''values'' \<mapsto> [''json'', ''csv'']]\<rparr>)
                 (Some formatOverride)) = ''enum''
   \<and> Lookup (cmd_Flags convertBase) ''format''
       = Some (newFlag ''format'' ''string'' ''json'' ''Output format'')
   \<and> visibleFlag (newFlag ''format'' ''string'' ''json'' ''Output format'')
   \<and> (\<exists>f'. Lookup (cmd_Flags convertCmd) ''format'' = Some f'
         \<and> annotation f' ''values'' = Some [''json'', ''csv'', ''yaml'']
         \<and> arg_Type (flagArg f' (Some formatOverride)) = ''enum''
         \<and> arg_Values (flagArg f' (Some formatOverride)) = [''json'', ''csv'', ''yaml'']
         \<and> flagArg f' (Some formatOverride) \<in> set (extractFlags convertCmd (Some formatOverride)))"
proof -
  let ?f = "newFlag ''format'' ''string'' ''json'' ''Output format''"
  let ?g = "?f\<lparr>flag_Annotations := Some [''values'' \<mapsto> [''json'', ''csv'']]\<rparr>"
  have h0: "annotation ?g ''values'' = Some [''json'', ''csv''] \<and> [''json'', ''csv''] \<noteq> []"
    by (simp add: annotation_def)
  have h1: "Lookup (cmd_Flags convertBase) ''format'' = Some ?f"
    by (simp add: convertBase_def newCommand_def newFlag_def Lookup_def)
  have h2: "visibleFlag ?f" by (simp add: visibleFlag_def newFlag_def)
  have h3: "ann_ArgTypes formatOverride ''format'' = Some ''string''"
    by (simp add: formatOverride_def)
  have h4: "[''json'', ''csv'', ''yaml''] \<noteq> []" by simp
  from EnumValues_forces_enum
         [of ?g "[''json'', ''csv'']" "Some formatOverride" convertBase "''format''" ?f
             "[''json'', ''csv'', ''yaml'']"]
       h0 h1 h2 h3 h4
  show ?thesis unfolding convertCmd_def by blast
qed

text \<open>
  C9. Calling \<open>EnumValues\<close> with a flag name that no flag of the command has is a
  no-op: the command, with all of its flags, is what it was. (The source function has
  no result and no error path, so nothing else can be surfaced.)
\<close>

theorem EnumValues_unknown_flag:
  "flagName \<notin> flag_Name ` set (fs_formal (cmd_Flags cmd)) \<Longrightarrow>
     EnumValues cmd flagName vals = cmd"
  by (simp add: EnumValues_def Lookup_None [symmetric])

theorem EnumValues_unknown_flag_witness:
  "''nonexistent'' \<notin> flag_Name ` set (fs_formal (cmd_Flags processCmd))
   \<and> EnumValues processCmd ''nonexistent'' [''a'', ''b''] = processCmd"
proof -
  have h: "''nonexistent'' \<notin> flag_Name ` set (fs_formal (cmd_Flags processCmd))"
    by (simp add: processCmd_def newCommand_def newFlag_def)
  from h EnumValues_unknown_flag [OF h] show ?thesis by simp
qed

subsection \<open>Reserved command names\<close>

text \<open>
  C10. Exclusion is decided by the name alone: a child named \<open>help\<close> or \<open>completion\<close>,
  whatever else it is (runnable, with flags, with children of its own), is not among the
  visible children, and the walk of its parent and the schema of a root that has it are
  what they are without it.
\<close>

theorem reserved_name_excluded:
  assumes "cmd_Name sub = ''help'' \<or> cmd_Name sub = ''completion''"
  shows "sub \<notin> set (visibleSubcommands (Command u s l v h r fl (xs @ sub # ys)))
     \<and> walkCommands (Command u s l v h r fl (xs @ sub # ys)) p opts
         = walkCommands (Command u s l v h r fl (xs @ ys)) p opts
     \<and> Describe (Command u s l v h r fl (xs @ sub # ys)) opts
         = Describe (Command u s l v h r fl (xs @ ys)) opts"
proof -
  from assms have inv: "\<not> visibleChild sub" by (auto simp: visibleChild_def)
  then have notin: "sub \<notin> set (visibleSubcommands (Command u s l v h r fl (xs @ sub # ys)))"
    by (simp add: visibleSubcommands_filter)
  have walk: "walkCommands (Command u s l v h r fl (xs @ sub # ys)) p opts
         = walkCommands (Command u s l v h r fl (xs @ ys)) p opts" for p
    using inv
    by (intro visibleSubcommands_Commands_cong)
       (simp_all add: extractCommand_def extractFlags_def Let_def cong: option.case_cong if_cong)
  have "Describe (Command u s l v h r fl (xs @ sub # ys)) opts
         = Describe (Command u s l v h r fl (xs @ ys)) opts"
    by (simp add: Describe_def walk cmd_Name_def Let_def cong: if_cong)
  with notin walk show ?thesis by simp
qed

theorem reserved_name_excluded_witness:
  "cmd_Name (newCommand ''help <topic>'' ''Show the manual page of a topic'' True
               [newFlag ''pager'' ''string'' ''less'' ''Pager to use''] []) = ''help''
   \<and> Describe ownHelpTool None
       = Describe (newCommand ''tool'' [] False [] [newCommand ''convert'' ''Convert'' True [] []])
           None
   \<and> map cd_Name (ts_Commands (Describe ownHelpTool None)) = [''convert'']"
proof -
  let ?manual = "newCommand ''help <topic>'' ''Show the manual page of a topic'' True
                 [newFlag ''pager'' ''string'' ''less'' ''Pager to use''] []"
  have h: "cmd_Name ?manual = ''help'' \<or> cmd_Name ?manual = ''completion''"
    by (simp add: newCommand_def cmd_Name_def)
  have names: "map cd_Name (ts_Commands (Describe
      (newCommand ''tool'' [] False [] [newCommand ''convert'' ''Convert'' True [] []]) None))
      = [''convert'']"
    by (simp add: Describe_Commands newCommand_def walkCommands_group walkCommands_leaf
          visibleChild_def cmd_Name_def subName_def leafName_def extractCommand_fields)
  from reserved_name_excluded
         [OF h, of "''tool''" "[]" "[]" "[]" False False
            "\<lparr>fs_formal = [], fs_SortFlags = True\<rparr>"
            "[newCommand ''convert'' ''Convert'' True [] []]" "[]" "[]" None]
  have "Describe ownHelpTool None
       = Describe (newCommand ''tool'' [] False [] [newCommand ''convert'' ''Convert'' True [] []])
           None"
    by (simp add: ownHelpTool_def newCommand_def)
  with h names show ?thesis by (simp add: newCommand_def cmd_Name_def)
qed

end
